theory Spec2Isabelle
  imports Complex_Main
begin

section \<open>Atoms, truth values and Python errors\<close>

text \<open>
  The wrapper builds Atomese graphs through the OpenCog type constructors. An atom is a
  node (a type and a name) or a link (a type and its outgoing atoms); two atoms are equal
  when they have the same type and the same name or outgoing atoms, which is the equality
  the AtomSpace gives to \<^verbatim>\<open>==\<close>. The type tags are the members of \<^verbatim>\<open>types\<close>
  that the file uses.
\<close>

datatype atom_type =
    types_NumberNode
  | types_PredicateNode
  | types_SchemaNode
  | types_VariableNode
  | types_TypeNode
  | types_TimeNode
  | types_EvaluationLink
  | types_ExecutionLink
  | types_AndLink
  | types_GreaterThanLink
  | types_TypedVariableLink
  | types_PredictiveImplicationScopeLink
  | types_AtTimeLink

datatype atom = Node atom_type string | Link atom_type "atom list"

text \<open>\<^verbatim>\<open>x.type\<close> and \<^verbatim>\<open>x.out\<close>; the outgoing list of a node is empty.\<close>

fun atom_type_of :: "atom \<Rightarrow> atom_type" where
  "atom_type_of (Node t name) = t"
| "atom_type_of (Link t outs) = t"

fun out :: "atom \<Rightarrow> atom list" where
  "out (Node t name) = []"
| "out (Link t outs) = outs"

definition NumberNode :: "string \<Rightarrow> atom" where
  "NumberNode name = Node types_NumberNode name"

definition PredicateNode :: "string \<Rightarrow> atom" where
  "PredicateNode name = Node types_PredicateNode name"

definition SchemaNode :: "string \<Rightarrow> atom" where
  "SchemaNode name = Node types_SchemaNode name"

definition VariableNode :: "string \<Rightarrow> atom" where
  "VariableNode name = Node types_VariableNode name"

definition TypeNode :: "string \<Rightarrow> atom" where
  "TypeNode name = Node types_TypeNode name"

definition TimeNode :: "string \<Rightarrow> atom" where
  "TimeNode name = Node types_TimeNode name"

definition EvaluationLink :: "atom list \<Rightarrow> atom" where
  "EvaluationLink outs = Link types_EvaluationLink outs"

definition ExecutionLink :: "atom list \<Rightarrow> atom" where
  "ExecutionLink outs = Link types_ExecutionLink outs"

definition AndLink :: "atom list \<Rightarrow> atom" where
  "AndLink outs = Link types_AndLink outs"

definition GreaterThanLink :: "atom list \<Rightarrow> atom" where
  "GreaterThanLink outs = Link types_GreaterThanLink outs"

definition TypedVariableLink :: "atom list \<Rightarrow> atom" where
  "TypedVariableLink outs = Link types_TypedVariableLink outs"

text \<open>
  The exceptions that the Python of this file can raise by itself: \<^verbatim>\<open>next\<close> on an
  exhausted generator, an index out of range, \<^verbatim>\<open>max\<close> of an empty sequence. The
  file defines no exception class of its own and has no \<^verbatim>\<open>raise\<close> statement.
\<close>

datatype error = StopIteration | IndexError | ValueError

text \<open>\<^verbatim>\<open>xs[i]\<close> for the literal indices 0..3 that the file uses.\<close>

definition py_index :: "'a list \<Rightarrow> nat \<Rightarrow> error + 'a" where
  "py_index xs i = (if i < length xs then Inr (xs ! i) else Inl IndexError)"

section \<open>Translating actions and reading schematics\<close>

text \<open>
  \<^verbatim>\<open>action_to_gym\<close> has two guarded returns and then falls off its end, which in
  Python returns \<^verbatim>\<open>None\<close>: the result is an optional integer, and no path raises.
\<close>

definition action_to_gym :: "atom \<Rightarrow> error + int option" where
  "action_to_gym action =
     (if SchemaNode ''Go Right'' = action then Inr (Some 0)
      else if SchemaNode ''Go Left'' = action then Inr (Some 1)
      else Inr None)"

text \<open>
  \<^verbatim>\<open>get_action\<close>: the third outgoing atom of the schematic is the conjunction;
  \<^verbatim>\<open>next\<close> takes the first conjunct of type ExecutionLink and raises StopIteration
  when there is none; the action is that link's first outgoing atom.
\<close>

definition get_action :: "atom \<Rightarrow> error + atom" where
  "get_action cs =
     (case py_index (out cs) 2 of
        Inl e \<Rightarrow> Inl e
      | Inr body \<Rightarrow>
          (case find (\<lambda>x. atom_type_of x = types_ExecutionLink) (out body) of
             None \<Rightarrow> Inl StopIteration
           | Some execution \<Rightarrow> py_index (out execution) 0))"

section \<open>Python floats\<close>

text \<open>
  A Python float is an IEEE 754 binary64 number: a finite value, an infinity or NaN. A
  finite float is given by its value; the two zeros are not told apart, which no
  operation used here does either.
\<close>

datatype pyfloat = Finite real | PosInf | NegInf | NaN

text \<open>
  Rounding to the nearest float, ties to the even significand. \<open>pow2 k\<close> is
  \<open>2\<^sup>k\<close>. \<open>ulp_exp x\<close> is the exponent of the last place of the floats
  around \<open>x\<close>: 52 below the binary exponent of \<open>x\<close>, and never below that of
  the subnormal numbers. \<open>round_val x\<close> is the nearest multiple of that last place,
  and a rounded value of magnitude \<open>2\<^sup>1\<^sup>0\<^sup>2\<^sup>4\<close> or more overflows
  to an infinity.
\<close>

definition pow2 :: "int \<Rightarrow> real" where
  "pow2 k = (if 0 \<le> k then 2 ^ nat k else inverse (2 ^ nat (- k)))"

definition ulp_exp :: "real \<Rightarrow> int" where
  "ulp_exp x = max (\<lfloor>log 2 \<bar>x\<bar>\<rfloor> - 52) (- 1074)"

definition rne :: "real \<Rightarrow> int" where
  "rne y =
     (let f = \<lfloor>y\<rfloor>; d = y - of_int f
      in if d < 1 / 2 then f
         else if 1 / 2 < d then f + 1
         else if even f then f else f + 1)"

definition round_val :: "real \<Rightarrow> real" where
  "round_val x = of_int (rne (x / pow2 (ulp_exp x))) * pow2 (ulp_exp x)"

definition round_double :: "real \<Rightarrow> pyfloat" where
  "round_double x =
     (if x = 0 then Finite 0
      else if 2 ^ 1024 \<le> \<bar>round_val x\<bar> then (if 0 < x then PosInf else NegInf)
      else Finite (round_val x))"

text \<open>A real number is a float when rounding leaves it as it is.\<close>

definition representable :: "real \<Rightarrow> bool" where
  "representable x \<longleftrightarrow> round_double x = Finite x"

text \<open>
  The float operations \<^verbatim>\<open>+\<close>, \<^verbatim>\<open>-\<close> and \<^verbatim>\<open>*\<close>: the exact result of finite
  operands is rounded; the other cases are those of IEEE 754. None of them raises.
\<close>

fun float_add :: "pyfloat \<Rightarrow> pyfloat \<Rightarrow> pyfloat" where
  "float_add NaN y = NaN"
| "float_add x NaN = NaN"
| "float_add PosInf NegInf = NaN"
| "float_add NegInf PosInf = NaN"
| "float_add PosInf y = PosInf"
| "float_add x PosInf = PosInf"
| "float_add NegInf y = NegInf"
| "float_add x NegInf = NegInf"
| "float_add (Finite x) (Finite y) = round_double (x + y)"

fun float_sub :: "pyfloat \<Rightarrow> pyfloat \<Rightarrow> pyfloat" where
  "float_sub NaN y = NaN"
| "float_sub x NaN = NaN"
| "float_sub PosInf PosInf = NaN"
| "float_sub NegInf NegInf = NaN"
| "float_sub PosInf y = PosInf"
| "float_sub x PosInf = NegInf"
| "float_sub NegInf y = NegInf"
| "float_sub x NegInf = PosInf"
| "float_sub (Finite x) (Finite y) = round_double (x - y)"

fun float_mul :: "pyfloat \<Rightarrow> pyfloat \<Rightarrow> pyfloat" where
  "float_mul NaN y = NaN"
| "float_mul x NaN = NaN"
| "float_mul (Finite x) (Finite y) = round_double (x * y)"
| "float_mul (Finite x) PosInf = (if x = 0 then NaN else if 0 < x then PosInf else NegInf)"
| "float_mul (Finite x) NegInf = (if x = 0 then NaN else if 0 < x then NegInf else PosInf)"
| "float_mul PosInf (Finite y) = (if y = 0 then NaN else if 0 < y then PosInf else NegInf)"
| "float_mul NegInf (Finite y) = (if y = 0 then NaN else if 0 < y then NegInf else PosInf)"
| "float_mul PosInf PosInf = PosInf"
| "float_mul PosInf NegInf = NegInf"
| "float_mul NegInf PosInf = NegInf"
| "float_mul NegInf NegInf = PosInf"

text \<open>The comparisons \<^verbatim>\<open><=\<close> and \<^verbatim>\<open><\<close>: false whenever an operand is NaN.\<close>

fun float_le :: "pyfloat \<Rightarrow> pyfloat \<Rightarrow> bool" where
  "float_le NaN y = False"
| "float_le x NaN = False"
| "float_le NegInf y = True"
| "float_le x PosInf = True"
| "float_le (Finite x) (Finite y) = (x \<le> y)"
| "float_le x y = False"

fun float_less :: "pyfloat \<Rightarrow> pyfloat \<Rightarrow> bool" where
  "float_less NaN y = False"
| "float_less x NaN = False"
| "float_less NegInf NegInf = False"
| "float_less NegInf y = True"
| "float_less PosInf y = False"
| "float_less x PosInf = True"
| "float_less (Finite x) (Finite y) = (x < y)"
| "float_less x y = False"

section \<open>Truth values and the beta distribution\<close>

text \<open>
  Modelled from the spec: the class \<^verbatim>\<open>TruthValue\<close> comes from the OpenCog bindings and
  is not part of the file. The spec's data model gives it as a pair of a strength, read
  by \<^verbatim>\<open>tv.mean\<close>, and an evidential count, read by \<^verbatim>\<open>tv.count\<close>, and
  \<^verbatim>\<open>TruthValue(m, c)\<close> builds the pair. The two fields are floats: the constructor
  is given the values of its two arguments, which it holds as the nearest floats (a float
  argument is its own nearest float, an integer or a decimal literal is converted).
\<close>

record truth_value =
  mean :: pyfloat
  count :: pyfloat

definition TruthValue :: "real \<Rightarrow> real \<Rightarrow> truth_value" where
  "TruthValue m c = \<lparr>mean = round_double m, count = round_double c\<rparr>"

definition TRUE_TV :: truth_value where
  "TRUE_TV = TruthValue 1 1"

text \<open>
  \<^verbatim>\<open>tv_to_beta(tv, prior_a=1, prior_b=1)\<close>: an omitted keyword argument is
  \<open>None\<close> here and takes the default 1. Every operation is a float operation, in the
  order of the source: \<^verbatim>\<open>prior_b + count - pos_count\<close> adds first. The frozen
  distribution \<^verbatim>\<open>beta(a, b)\<close> is represented by its two parameters.
\<close>

definition tv_to_beta ::
  "truth_value \<Rightarrow> pyfloat option \<Rightarrow> pyfloat option \<Rightarrow> pyfloat \<times> pyfloat"
where
  "tv_to_beta tv prior_a_arg prior_b_arg =
     (let prior_a = (case prior_a_arg of None \<Rightarrow> Finite 1 | Some p \<Rightarrow> p);
          prior_b = (case prior_b_arg of None \<Rightarrow> Finite 1 | Some p \<Rightarrow> p);
          cnt = count tv;
          pos_count = float_mul cnt (mean tv);
          a = float_add prior_a pos_count;
          b = float_sub (float_add prior_b cnt) pos_count
      in (a, b))"

text \<open>
  \<^verbatim>\<open>tv_rv\<close> draws from the distribution with SciPy's \<^verbatim>\<open>rvs\<close>, which reads and
  advances the process-wide random source. The sampler is a parameter: it takes the
  beta parameters and the state of the random source, and returns the variate and the
  new state. A variate, an observation and a reward are carried by their values: they
  are compared and printed, and no arithmetic is done on them.
\<close>

definition tv_rv :: "(pyfloat \<times> pyfloat \<Rightarrow> 'g \<Rightarrow> real \<times> 'g) \<Rightarrow> truth_value \<Rightarrow> 'g \<Rightarrow> real \<times> 'g" where
  "tv_rv rvs tv g = (let beta = tv_to_beta tv None None in rvs beta g)"

section \<open>Thompson sampling\<close>

text \<open>
  The list comprehension of \<^verbatim>\<open>thompson_sample\<close> draws one variate for each pair of
  the action distribution, from left to right.
\<close>

fun actps_of ::
  "(pyfloat \<times> pyfloat \<Rightarrow> 'g \<Rightarrow> real \<times> 'g) \<Rightarrow> (atom \<times> truth_value) list \<Rightarrow> 'g \<Rightarrow> (atom \<times> real) list \<times> 'g"
where
  "actps_of rvs [] g = ([], g)"
| "actps_of rvs ((action, tv) # rest) g =
     (let (p, g1) = tv_rv rvs tv g;
          (ps, g2) = actps_of rvs rest g1
      in ((action, p) # ps, g2))"

text \<open>
  Python's \<^verbatim>\<open>max(xs, key=f)\<close>: ValueError on an empty sequence; otherwise a scan
  from the left that replaces the current maximum only by an item with a strictly
  greater key.
\<close>

fun py_max :: "('a \<Rightarrow> 'k::linorder) \<Rightarrow> 'a list \<Rightarrow> error + 'a" where
  "py_max key [] = Inl ValueError"
| "py_max key (x # xs) = Inr (foldl (\<lambda>m y. if key m < key y then y else m) x xs)"

definition thompson_sample ::
  "(pyfloat \<times> pyfloat \<Rightarrow> 'g \<Rightarrow> real \<times> 'g) \<Rightarrow> (atom \<times> truth_value) list \<Rightarrow> 'g \<Rightarrow> error + ((atom \<times> real) \<times> 'g)"
where
  "thompson_sample rvs actdist g =
     (let (actps, g') = actps_of rvs actdist g
      in case py_max (\<lambda>actp. snd actp) actps of
           Inl e \<Rightarrow> Inl e
         | Inr best \<Rightarrow> Inr (best, g'))"

definition decide ::
  "(pyfloat \<times> pyfloat \<Rightarrow> 'g \<Rightarrow> real \<times> 'g) \<Rightarrow> (atom \<times> truth_value) list \<Rightarrow> 'g \<Rightarrow> error + ((atom \<times> real) \<times> 'g)"
where
  "decide rvs actdist g =
     (case thompson_sample rvs actdist g of
        Inl e \<Rightarrow> Inl e
      | Inr ((action, pblty), g') \<Rightarrow> Inr ((action, pblty), g'))"

section \<open>Atomese for observations, rewards and time\<close>

text \<open>
  \<^verbatim>\<open>str\<close> of an integer is its decimal numeral. \<^verbatim>\<open>str\<close> of a float is Python's
  shortest round-trip numeral, which is a parameter \<open>str_float\<close> of the functions that
  print floats.
\<close>

function str_nat :: "nat \<Rightarrow> string" where
  "str_nat n =
     (if n < 10 then [''0123456789'' ! n]
      else str_nat (n div 10) @ [''0123456789'' ! (n mod 10)])"
  by pat_completeness auto
termination
  by (relation "measure (\<lambda>n. n)") auto

declare str_nat.simps [simp del]

definition str_int :: "int \<Rightarrow> string" where
  "str_int i = (if i < 0 then CHR ''-'' # str_nat (nat (- i)) else str_nat (nat i))"

datatype py_num = PyInt int | PyFloat real

fun py_str :: "(real \<Rightarrow> string) \<Rightarrow> py_num \<Rightarrow> string" where
  "py_str str_float (PyInt i) = str_int i"
| "py_str str_float (PyFloat r) = str_float r"

definition observation_to_atomese :: "(real \<Rightarrow> string) \<Rightarrow> real list \<Rightarrow> error + atom list" where
  "observation_to_atomese str_float observation =
     (case py_index observation 0 of Inl e \<Rightarrow> Inl e | Inr o0 \<Rightarrow>
     (case py_index observation 1 of Inl e \<Rightarrow> Inl e | Inr o1 \<Rightarrow>
     (case py_index observation 2 of Inl e \<Rightarrow> Inl e | Inr o2 \<Rightarrow>
     (case py_index observation 3 of Inl e \<Rightarrow> Inl e | Inr o3 \<Rightarrow>
        (let cp = NumberNode (str_float o0);
             cv = NumberNode (str_float o1);
             pa = NumberNode (str_float o2);
             pvat = NumberNode (str_float o3)
         in Inr [EvaluationLink [PredicateNode ''Cart Position'', cp],
                 EvaluationLink [PredicateNode ''Cart Velocity'', cv],
                 EvaluationLink [PredicateNode ''Pole Angle'', pa],
                 EvaluationLink [PredicateNode ''Cart Velocity At Tip'', pvat]])))))"

definition reward_to_atomese :: "(real \<Rightarrow> string) \<Rightarrow> py_num \<Rightarrow> atom" where
  "reward_to_atomese str_float reward =
     (let rn = NumberNode (py_str str_float reward)
      in EvaluationLink [PredicateNode ''Reward'', rn])"

definition make_goal :: "(real \<Rightarrow> string) \<Rightarrow> int \<Rightarrow> atom" where
  "make_goal str_float ci = reward_to_atomese str_float (PyInt 1)"

text \<open>
  The AtomSpace is the store of the truth values set on atoms. A type constructor called
  with \<^verbatim>\<open>tv=\<close> sets the truth value of the atom it returns; called without, or with
  \<^verbatim>\<open>tv=None\<close>, it leaves the store as it is.
\<close>

type_synonym atomspace = "atom \<rightharpoonup> truth_value"

definition set_tv :: "atom \<Rightarrow> truth_value option \<Rightarrow> atomspace \<Rightarrow> atomspace" where
  "set_tv a tv space = (case tv of None \<Rightarrow> space | Some v \<Rightarrow> space(a \<mapsto> v))"

definition AtTimeLink :: "atom list \<Rightarrow> truth_value option \<Rightarrow> atomspace \<Rightarrow> atom \<times> atomspace" where
  "AtTimeLink outs tv space =
     (let a = Link types_AtTimeLink outs in (a, set_tv a tv space))"

definition PredictiveImplicationScopeLink ::
  "atom list \<Rightarrow> truth_value option \<Rightarrow> atomspace \<Rightarrow> atom \<times> atomspace"
where
  "PredictiveImplicationScopeLink outs tv space =
     (let a = Link types_PredictiveImplicationScopeLink outs in (a, set_tv a tv space))"

definition timestamp :: "atom \<Rightarrow> int \<Rightarrow> truth_value option \<Rightarrow> atomspace \<Rightarrow> atom \<times> atomspace" where
  "timestamp a i tv space = AtTimeLink [a, TimeNode (str_int i)] tv space"

section \<open>Planning and deduction\<close>

text \<open>
  \<^verbatim>\<open>plan\<close> builds the two hardwired schematics, the one for Go Right first, and
  returns them with the one for Go Left first. The goal is not read. The expiry is a
  Python integer.
\<close>

definition plan :: "atom \<Rightarrow> int \<Rightarrow> atomspace \<Rightarrow> atom list \<times> atomspace" where
  "plan goal expiry space =
     (let angle = VariableNode ''$angle'';
          numt = TypeNode ''NumberNode'';
          time_offset = NumberNode (str_int expiry);
          pole_angle = PredicateNode ''Pole Angle'';
          go_right = SchemaNode ''Go Right'';
          go_left = SchemaNode ''Go Left'';
          reward = PredicateNode ''Reward'';
          zero = NumberNode ''0'';
          unit = NumberNode ''1'';
          TV = TruthValue 0.9 0.1;
          (cs_r, space1) =
            PredictiveImplicationScopeLink
              [TypedVariableLink [angle, numt],
               time_offset,
               AndLink
                 [EvaluationLink [pole_angle, angle],
                  GreaterThanLink [angle, zero],
                  ExecutionLink [go_right]],
               EvaluationLink [reward, unit]]
              (Some TV) space;
          (cs_l, space2) =
            PredictiveImplicationScopeLink
              [TypedVariableLink [angle, numt],
               time_offset,
               AndLink
                 [EvaluationLink [pole_angle, angle],
                  GreaterThanLink [zero, angle],
                  ExecutionLink [go_left]],
               EvaluationLink [reward, unit]]
              (Some TV) space1
      in ([cs_l, cs_r], space2))"

text \<open>
  The set comprehension of \<^verbatim>\<open>deduce\<close> calls \<^verbatim>\<open>get_action\<close> on each schematic
  in turn, and the first exception ends it.
\<close>

fun get_actions :: "atom list \<Rightarrow> error + atom list" where
  "get_actions [] = Inr []"
| "get_actions (cs # css) =
     (case get_action cs of
        Inl e \<Rightarrow> Inl e
      | Inr a \<Rightarrow> (case get_actions css of Inl e \<Rightarrow> Inl e | Inr acts \<Rightarrow> Inr (a # acts)))"

text \<open>
  A Python set holds each element once and is iterated in an order that the language
  leaves open (it follows the hashes). The order is a parameter: \<open>rank\<close> gives each atom
  its place, and the set built from a list is iterated as its distinct elements sorted by
  rank. Every order of the distinct elements is the order of some rank.
\<close>

definition py_set_iter :: "(atom \<Rightarrow> nat) \<Rightarrow> atom list \<Rightarrow> atom list" where
  "py_set_iter rank xs = sort_key rank (remdups xs)"

definition deduce :: "(atom \<Rightarrow> nat) \<Rightarrow> atom list \<Rightarrow> error + (atom \<times> truth_value) list" where
  "deduce rank css =
     (case get_actions css of
        Inl e \<Rightarrow> Inl e
      | Inr acts \<Rightarrow>
          (let actions = py_set_iter rank acts;
               tv = TruthValue 1 0
           in Inr (map (\<lambda>action. (action, tv)) actions)))"

section \<open>The timestep controller\<close>

text \<open>
  What \<^verbatim>\<open>cartpole_step\<close> takes from outside the file: the Gym environment (its
  \<^verbatim>\<open>step\<close>, \<^verbatim>\<open>render\<close> and \<^verbatim>\<open>close\<close> as functions on the state \<open>'e\<close> of
  the environment), the constant \<^verbatim>\<open>X_ENABLED\<close> read from the process environment,
  the sampler, the iteration order of sets and the printing of floats.
\<close>

record ('e, 'g, 'i) externals =
  env_step :: "'e \<Rightarrow> int option \<Rightarrow> (real list \<times> real \<times> bool \<times> 'i) \<times> 'e"
  env_render :: "'e \<Rightarrow> 'e"
  env_close :: "'e \<Rightarrow> 'e"
  X_ENABLED :: bool
  rvs :: "pyfloat \<times> pyfloat \<Rightarrow> 'g \<Rightarrow> real \<times> 'g"
  set_rank :: "atom \<Rightarrow> nat"
  str_float :: "real \<Rightarrow> string"

text \<open>
  The globals \<^verbatim>\<open>observation\<close> and \<^verbatim>\<open>cartpole_step_count\<close>, with the state of
  the environment, of the random source and of the AtomSpace.
\<close>

record ('e, 'g) state =
  observation :: "real list"
  cartpole_step_count :: int
  env :: 'e
  rng :: 'g
  atomspace :: atomspace

fun timestamp_each ::
  "atom list \<Rightarrow> int \<Rightarrow> truth_value option \<Rightarrow> atomspace \<Rightarrow> atom list \<times> atomspace"
where
  "timestamp_each [] i tv space = ([], space)"
| "timestamp_each (ob # obs) i tv space =
     (let (t, space1) = timestamp ob i tv space;
          (ts, space2) = timestamp_each obs i tv space1
      in (t # ts, space2))"

text \<open>
  One tick. The pacing delay and the printing are left out; everything else is in the
  order of the source. An exception ends the tick with no new state.
\<close>

definition cartpole_step ::
  "('e, 'g, 'i) externals \<Rightarrow> ('e, 'g) state \<Rightarrow> error + (truth_value \<times> ('e, 'g) state)"
where
  "cartpole_step X s =
     (let i = cartpole_step_count s
      in case observation_to_atomese (str_float X) (observation s) of
           Inl e \<Rightarrow> Inl e
         | Inr atomese_obs \<Rightarrow>
     (let (timestamped_obs, space1) = timestamp_each atomese_obs i (Some TRUE_TV) (atomspace s);
          goal = make_goal (str_float X) i;
          env1 = (if X_ENABLED X then env_render X (env s) else env s);
          expiry = 1;
          (css, space2) = plan goal expiry space1
      in case deduce (set_rank X) css of
           Inl e \<Rightarrow> Inl e
         | Inr actdist \<Rightarrow>
     (case decide (rvs X) actdist (rng s) of
           Inl e \<Rightarrow> Inl e
         | Inr ((action, pblty), g1) \<Rightarrow>
     (case action_to_gym action of
           Inl e \<Rightarrow> Inl e
         | Inr gym_action \<Rightarrow>
     (let ((observation', reward, done, info), env2) = env_step X env1 gym_action;
          (timestamped_reward, space3) =
             timestamp (reward_to_atomese (str_float X) (PyFloat reward)) i (Some TRUE_TV) space2;
          s1 = s\<lparr>observation := observation',
                 cartpole_step_count := cartpole_step_count s + 1,
                 env := env2, rng := g1, atomspace := space3\<rparr>
      in if done then Inr (TruthValue 0 1, s1\<lparr>env := env_close X env2\<rparr>)
         else Inr (TruthValue 1 1, s1))))))"

section \<open>Sample inputs\<close>

text \<open>A schematic whose conjunction has two execution clauses.\<close>

definition two_executions :: atom where
  "two_executions =
     Link types_PredictiveImplicationScopeLink
       [TypedVariableLink [VariableNode ''$angle'', TypeNode ''NumberNode''],
        NumberNode ''1'',
        AndLink [ExecutionLink [SchemaNode ''Go Left''], ExecutionLink [SchemaNode ''Go Right'']],
        EvaluationLink [PredicateNode ''Reward'', NumberNode ''1'']]"

text \<open>
  A sampler that reads its variates from a tape, the state of the random source being
  what is left of the tape.
\<close>

definition tape_rvs :: "pyfloat \<times> pyfloat \<Rightarrow> real list \<Rightarrow> real \<times> real list" where
  "tape_rvs beta tape = (case tape of [] \<Rightarrow> (0, []) | p # rest \<Rightarrow> (p, rest))"

text \<open>
  An environment whose state counts the steps taken: it reports the end of the episode
  from the third step on, and closing it sets the count back to 0. The sampler reads a
  tape, sets are iterated by the size of the atoms, nothing is rendered.
\<close>

definition demo_externals :: "(nat, real list, unit) externals" where
  "demo_externals =
     \<lparr>env_step = (\<lambda>e a. (([0, 0, 0, 0], 1, 2 \<le> e, ()), Suc e)),
      env_render = (\<lambda>e. e),
      env_close = (\<lambda>e. 0),
      X_ENABLED = False,
      rvs = tape_rvs,
      set_rank = size,
      str_float = (\<lambda>r. ''0.0'')\<rparr>"

definition demo_state :: "nat \<Rightarrow> (nat, real list) state" where
  "demo_state e =
     \<lparr>observation = [0, 0, 0.05, 0], cartpole_step_count = 0, env = e,
      rng = [0.3, 0.7], atomspace = Map.empty\<rparr>"

section \<open>Helper lemmas\<close>

lemmas atom_constructors =
  NumberNode_def PredicateNode_def SchemaNode_def VariableNode_def TypeNode_def
  TimeNode_def EvaluationLink_def ExecutionLink_def AndLink_def GreaterThanLink_def
  TypedVariableLink_def

lemma pow2_powr: "pow2 k = 2 powr (of_int k)"
  by (simp add: pow2_def powr_real_of_int)

lemma pow2_pos: "0 < pow2 k"
  by (simp add: pow2_powr)

lemma pow2_mono: "k \<le> l \<Longrightarrow> pow2 k \<le> pow2 l"
  by (simp add: pow2_powr)

lemma pow2_add: "pow2 (k + l) = pow2 k * pow2 l"
  by (simp add: pow2_powr powr_add)

lemma floor_log2_bounds:
  assumes "0 < x"
  shows "pow2 \<lfloor>log 2 x\<rfloor> \<le> x" and "x < pow2 (\<lfloor>log 2 x\<rfloor> + 1)"
  using floor_log_eq_powr_iff [of x 2 "\<lfloor>log 2 x\<rfloor>"] assms
  by (simp_all add: pow2_powr)

lemma floor_log2_eqI:
  assumes "pow2 k \<le> x" and "x < pow2 (k + 1)"
  shows "\<lfloor>log 2 x\<rfloor> = k"
proof -
  have "0 < x" using assms(1) pow2_pos [of k] by linarith
  then show ?thesis
    using floor_log_eq_powr_iff [of x 2 k] assms by (simp add: pow2_powr)
qed

lemma ulp_exp_eqI:
  assumes "pow2 k \<le> \<bar>x\<bar>" and "\<bar>x\<bar> < pow2 (k + 1)"
  shows "ulp_exp x = max (k - 52) (- 1074)"
  by (simp add: ulp_exp_def floor_log2_eqI [OF assms])

lemma ulp_exp_mono:
  assumes "0 < x" and "x \<le> y"
  shows "ulp_exp x \<le> ulp_exp y"
proof -
  have "log 2 x \<le> log 2 y" using assms by simp
  then have "\<lfloor>log 2 x\<rfloor> \<le> \<lfloor>log 2 y\<rfloor>" by (rule floor_mono)
  then show ?thesis using assms by (simp add: ulp_exp_def)
qed

lemma rne_of_int: "rne (of_int n) = n"
  by (simp add: rne_def)

lemma rne_bounds: "\<lfloor>y\<rfloor> \<le> rne y" "rne y \<le> \<lfloor>y\<rfloor> + 1"
  by (simp_all add: rne_def Let_def)

lemma rne_mono:
  assumes "x \<le> y"
  shows "rne x \<le> rne y"
proof (cases "\<lfloor>x\<rfloor> = \<lfloor>y\<rfloor>")
  case True
  then show ?thesis using assms by (auto simp: rne_def Let_def)
next
  case False
  then have "\<lfloor>x\<rfloor> < \<lfloor>y\<rfloor>" using floor_mono [OF assms] by linarith
  then show ?thesis using rne_bounds(2) [of x] rne_bounds(1) [of y] by linarith
qed

lemma rne_ge: "of_int n \<le> y \<Longrightarrow> n \<le> rne y"
  using rne_mono [of "of_int n" y] by (simp add: rne_of_int)

lemma rne_le: "y \<le> of_int n \<Longrightarrow> rne y \<le> n"
  using rne_mono [of y "of_int n"] by (simp add: rne_of_int)

lemma scaled_less:
  assumes "0 < x"
  shows "x / pow2 (ulp_exp x) < 2 ^ 53"
proof -
  let ?L = "\<lfloor>log 2 x\<rfloor>"
  have "?L + 1 \<le> ulp_exp x + 53" using assms by (simp add: ulp_exp_def)
  then have "pow2 (?L + 1) \<le> pow2 (ulp_exp x + 53)" by (rule pow2_mono)
  with floor_log2_bounds(2) [OF assms] have "x < pow2 (ulp_exp x + 53)" by linarith
  also have "\<dots> = pow2 (ulp_exp x) * 2 ^ 53" by (simp add: pow2_add) (simp add: pow2_def)
  finally show ?thesis using pow2_pos [of "ulp_exp x"] by (simp add: field_simps)
qed

lemma scaled_ge:
  assumes "0 < x" and "- 1074 < ulp_exp x"
  shows "2 ^ 52 \<le> x / pow2 (ulp_exp x)"
proof -
  let ?L = "\<lfloor>log 2 x\<rfloor>"
  have e: "ulp_exp x + 52 = ?L" using assms by (simp add: ulp_exp_def split: if_splits)
  have "pow2 (ulp_exp x) * 2 ^ 52 = pow2 (ulp_exp x + 52)"
    by (simp add: pow2_add) (simp add: pow2_def)
  also have "\<dots> \<le> x" unfolding e by (rule floor_log2_bounds(1) [OF assms(1)])
  finally show ?thesis using pow2_pos [of "ulp_exp x"] by (simp add: field_simps)
qed

lemma round_val_nonneg:
  assumes "0 \<le> x"
  shows "0 \<le> round_val x"
proof -
  have "0 \<le> x / pow2 (ulp_exp x)" using assms pow2_pos [of "ulp_exp x"] by simp
  then have "0 \<le> rne (x / pow2 (ulp_exp x))" using rne_ge [of 0] by simp
  then show ?thesis using pow2_pos [of "ulp_exp x"] by (simp add: round_val_def)
qed

lemma round_val_mono:
  assumes "0 < x" and "x \<le> y"
  shows "round_val x \<le> round_val y"
proof (cases "ulp_exp x = ulp_exp y")
  case True
  have "x / pow2 (ulp_exp y) \<le> y / pow2 (ulp_exp y)"
    using assms pow2_pos [of "ulp_exp y"] by (simp add: divide_right_mono)
  then have "rne (x / pow2 (ulp_exp y)) \<le> rne (y / pow2 (ulp_exp y))" by (rule rne_mono)
  then show ?thesis using pow2_pos [of "ulp_exp y"] by (simp add: round_val_def True)
next
  case False
  let ?ex = "ulp_exp x" and ?ey = "ulp_exp y"
  have y: "0 < y" using assms by linarith
  have lt: "?ex < ?ey" using ulp_exp_mono [OF assms] False by linarith
  have "- 1074 \<le> ?ex" by (simp add: ulp_exp_def)
  with lt have ey: "- 1074 < ?ey" by linarith
  have "rne (x / pow2 ?ex) \<le> 2 ^ 53"
    using rne_le [of "x / pow2 ?ex" "2 ^ 53"] scaled_less [OF assms(1)] by simp
  then have "of_int (rne (x / pow2 ?ex)) \<le> (2 ^ 53 :: real)"
    by (metis of_int_le_iff of_int_numeral of_int_power)
  then have "round_val x \<le> 2 ^ 53 * pow2 ?ex"
    using pow2_pos [of ?ex] by (simp add: round_val_def)
  also have "\<dots> = pow2 (?ex + 53)" by (simp add: pow2_add) (simp add: pow2_def)
  also have "\<dots> \<le> pow2 (?ey + 52)" using lt by (intro pow2_mono) simp
  also have "\<dots> = 2 ^ 52 * pow2 ?ey" by (simp add: pow2_add) (simp add: pow2_def)
  also have "\<dots> \<le> round_val y"
  proof -
    have "2 ^ 52 \<le> rne (y / pow2 ?ey)"
      using rne_ge [of "2 ^ 52" "y / pow2 ?ey"] scaled_ge [OF y ey] by simp
    then have "(2 ^ 52 :: real) \<le> of_int (rne (y / pow2 ?ey))"
      by (metis of_int_le_iff of_int_numeral of_int_power)
    then show ?thesis using pow2_pos [of ?ey] by (simp add: round_val_def)
  qed
  finally show ?thesis .
qed

lemma round_double_nonneg:
  assumes "0 \<le> x"
  shows "round_double x = PosInf \<or> (\<exists>r. round_double x = Finite r \<and> 0 \<le> r)"
  using assms round_val_nonneg [OF assms] by (auto simp: round_double_def)

lemma round_double_mono:
  assumes "0 \<le> x" and "x \<le> y"
  shows "float_le (round_double x) (round_double y)"
proof (cases "x = 0")
  case True
  then show ?thesis using round_double_nonneg [of y] assms
    by (auto simp: round_double_def)
next
  case False
  then have x: "0 < x" and y: "0 < y" using assms by linarith+
  have m: "round_val x \<le> round_val y" by (rule round_val_mono [OF x assms(2)])
  have "0 \<le> round_val x" "0 \<le> round_val y"
    using round_val_nonneg x y by (simp_all add: less_imp_le)
  then show ?thesis using x y m by (auto simp: round_double_def)
qed

lemma round_double_eval:
  assumes "pow2 k \<le> \<bar>x\<bar>" and "\<bar>x\<bar> < pow2 (k + 1)"
  shows "round_double x =
           (let e = max (k - 52) (- 1074);
                r = of_int (rne (x / pow2 e)) * pow2 e
            in if 2 ^ 1024 \<le> \<bar>r\<bar> then (if 0 < x then PosInf else NegInf) else Finite r)"
proof -
  have "x \<noteq> 0" using assms(1) pow2_pos [of k] by auto
  then show ?thesis
    by (simp add: round_double_def round_val_def ulp_exp_eqI [OF assms] Let_def)
qed


lemma round_double_below:
  assumes "0 \<le> x" and "x \<le> c" and "representable c"
  obtains p where "round_double x = Finite p" and "0 \<le> p" and "p \<le> c"
proof -
  have le: "float_le (round_double x) (Finite c)"
    using round_double_mono [OF assms(1,2)] assms(3) by (simp add: representable_def)
  from round_double_nonneg [OF assms(1)] show ?thesis
  proof
    assume "round_double x = PosInf"
    with le show ?thesis by simp
  next
    assume "\<exists>r. round_double x = Finite r \<and> 0 \<le> r"
    then obtain r where r: "round_double x = Finite r" "0 \<le> r" by blast
    with le have "r \<le> c" by simp
    with r show ?thesis by (rule that)
  qed
qed

lemma round_double_above:
  assumes "0 \<le> c" and "c \<le> x" and "representable c"
  shows "round_double x = PosInf \<or> (\<exists>t. round_double x = Finite t \<and> c \<le> t)"
proof -
  have le: "float_le (Finite c) (round_double x)"
    using round_double_mono [OF assms(1,2)] assms(3) by (simp add: representable_def)
  have "0 \<le> x" using assms by linarith
  from round_double_nonneg [OF this] le show ?thesis by auto
qed

lemma tv_to_beta_default:
  "tv_to_beta tv None None = tv_to_beta tv (Some (Finite 1)) (Some (Finite 1))"
  by (simp add: tv_to_beta_def)

lemma tv_to_beta_finite:
  assumes "mean tv = Finite s" and "count tv = Finite c"
    and "representable s" and "representable c"
    and "0 \<le> s" and "s \<le> 1" and "0 \<le> c"
  obtains p where "round_double (c * s) = Finite p" and "0 \<le> p" and "p \<le> c"
    and "\<And>pa pb. tv_to_beta tv (Some (Finite pa)) (Some (Finite pb))
           = (round_double (pa + p), float_sub (round_double (pb + c)) (Finite p))"
proof -
  have "0 \<le> c * s" "c * s \<le> c" using assms(5-7) by (simp_all add: mult_left_le)
  from round_double_below [OF this assms(4)] obtain p where
    p: "round_double (c * s) = Finite p" "0 \<le> p" "p \<le> c" by blast
  have "tv_to_beta tv (Some (Finite pa)) (Some (Finite pb))
          = (round_double (pa + p), float_sub (round_double (pb + c)) (Finite p))" for pa pb
    by (simp add: tv_to_beta_def Let_def assms(1,2) p(1))
  with p show ?thesis by (rule that)
qed


lemma float_sub_antimono:
  assumes "q = PosInf \<or> (\<exists>t. q = Finite t \<and> p2 \<le> t)" and "p1 \<le> p2"
  shows "float_le (float_sub q (Finite p2)) (float_sub q (Finite p1))"
  using assms(1)
proof
  assume "q = PosInf"
  then show ?thesis by simp
next
  assume "\<exists>t. q = Finite t \<and> p2 \<le> t"
  then obtain t where t: "q = Finite t" "p2 \<le> t" by blast
  have "0 \<le> t - p2" "t - p2 \<le> t - p1" using t(2) assms(2) by simp_all
  from round_double_mono [OF this] show ?thesis by (simp add: t(1))
qed


lemma find_filter_Nil: "filter P xs = [] \<Longrightarrow> find P xs = None"
  by (induction xs) (auto split: if_splits)

lemma find_filter_Cons: "filter P xs = y # ys \<Longrightarrow> find P xs = Some y"
  by (induction xs) (auto split: if_splits)

lemma snoc_max_first:
  fixes key :: "'a \<Rightarrow> 'k::linorder"
  assumes "i < length zs"
    and "\<forall>j<length zs. key (zs ! j) \<le> key (zs ! i)"
    and "\<forall>j<i. key (zs ! j) < key (zs ! i)"
  shows "\<exists>i'<length (zs @ [y]).
           (if key (zs ! i) < key y then y else zs ! i) = (zs @ [y]) ! i' \<and>
           (\<forall>j<length (zs @ [y]). key ((zs @ [y]) ! j) \<le> key ((zs @ [y]) ! i')) \<and>
           (\<forall>j<i'. key ((zs @ [y]) ! j) < key ((zs @ [y]) ! i'))"
proof (cases "key (zs ! i) < key y")
  case True
  have below: "key (zs ! j) < key y" if "j < length zs" for j
    using assms(2) that True by (meson le_less_trans)
  have "(if key (zs ! i) < key y then y else zs ! i) = (zs @ [y]) ! length zs"
    using True by simp
  moreover have "\<forall>j<length (zs @ [y]). key ((zs @ [y]) ! j) \<le> key ((zs @ [y]) ! length zs)"
    using below by (auto simp: nth_append less_Suc_eq order.strict_implies_order)
  moreover have "\<forall>j<length zs. key ((zs @ [y]) ! j) < key ((zs @ [y]) ! length zs)"
    using below by (simp add: nth_append)
  ultimately show ?thesis
    by (intro exI [of _ "length zs"]) simp
next
  case False
  have "(if key (zs ! i) < key y then y else zs ! i) = (zs @ [y]) ! i"
    using False assms(1) by (simp add: nth_append)
  moreover have "\<forall>j<length (zs @ [y]). key ((zs @ [y]) ! j) \<le> key ((zs @ [y]) ! i)"
    using False assms(1,2) by (auto simp: nth_append less_Suc_eq not_less)
  moreover have "\<forall>j<i. key ((zs @ [y]) ! j) < key ((zs @ [y]) ! i)"
    using assms(1,3) by (simp add: nth_append)
  ultimately show ?thesis
    using assms(1) by (intro exI [of _ i]) simp
qed

lemma foldl_max_first:
  fixes key :: "'a \<Rightarrow> 'k::linorder"
  shows "\<exists>i<length (x # xs).
      foldl (\<lambda>m y. if key m < key y then y else m) x xs = (x # xs) ! i \<and>
      (\<forall>j<length (x # xs). key ((x # xs) ! j) \<le> key ((x # xs) ! i)) \<and>
      (\<forall>j<i. key ((x # xs) ! j) < key ((x # xs) ! i))"
proof (induction xs rule: rev_induct)
  case Nil
  then show ?case by simp
next
  case (snoc y xs)
  then obtain i where i: "i < length (x # xs)"
    "foldl (\<lambda>m y. if key m < key y then y else m) x xs = (x # xs) ! i"
    "\<forall>j<length (x # xs). key ((x # xs) ! j) \<le> key ((x # xs) ! i)"
    "\<forall>j<i. key ((x # xs) ! j) < key ((x # xs) ! i)"
    by blast
  from snoc_max_first [OF i(1,3,4), of y] show ?case
    by (simp add: i(2))
qed

lemma py_max_first:
  fixes key :: "'a \<Rightarrow> 'k::linorder"
  assumes "xs \<noteq> []"
  shows "\<exists>i<length xs. py_max key xs = Inr (xs ! i) \<and>
           (\<forall>j<length xs. key (xs ! j) \<le> key (xs ! i)) \<and>
           (\<forall>j<i. key (xs ! j) < key (xs ! i))"
proof -
  from assms obtain x ys where xs: "xs = x # ys" by (cases xs) auto
  show ?thesis unfolding xs py_max.simps using foldl_max_first [of x ys key] by blast
qed

lemma actps_of_actions: "map fst (fst (actps_of sampler actdist g)) = map fst actdist"
proof (induction actdist arbitrary: g)
  case Nil
  then show ?case by simp
next
  case (Cons entry rest)
  obtain action tv where e: "entry = (action, tv)" by (cases entry)
  obtain p g1 where d: "tv_rv sampler tv g = (p, g1)" by (cases "tv_rv sampler tv g")
  obtain ps g2 where r: "actps_of sampler rest g1 = (ps, g2)"
    by (cases "actps_of sampler rest g1")
  show ?case using Cons.IH [of g1] by (simp add: e d r)
qed

lemma actps_of_draws:
  "k < length actdist \<Longrightarrow>
   \<exists>gk. snd (fst (actps_of sampler actdist g) ! k) = fst (tv_rv sampler (snd (actdist ! k)) gk)"
proof (induction sampler actdist g arbitrary: k rule: actps_of.induct)
  case (1 sampler g)
  then show ?case by simp
next
  case (2 sampler action tv rest g)
  obtain p g1 where d: "tv_rv sampler tv g = (p, g1)" by (cases "tv_rv sampler tv g")
  obtain ps g2 where r: "actps_of sampler rest g1 = (ps, g2)" by (cases "actps_of sampler rest g1")
  show ?case
  proof (cases k)
    case 0
    have "snd (fst (actps_of sampler ((action, tv) # rest) g) ! 0) = fst (tv_rv sampler tv g)"
      by (simp add: d r)
    then show ?thesis using 0 by auto
  next
    case (Suc m)
    then have "m < length rest" using "2.prems" by simp
    from "2.IH" [OF d [symmetric] refl this]
    obtain gk where "snd (fst (actps_of sampler rest g1) ! m) = fst (tv_rv sampler (snd (rest ! m)) gk)"
      by blast
    then show ?thesis using Suc by (auto simp: d r)
  qed
qed

lemma decide_pick:
  assumes "actdist \<noteq> []"
  obtains actps g' i where
    "actps_of sampler actdist g = (actps, g')"
    "map fst actps = map fst actdist"
    "\<forall>k<length actdist. \<exists>gk. snd (actps ! k) = fst (tv_rv sampler (snd (actdist ! k)) gk)"
    "i < length actdist"
    "decide sampler actdist g = Inr ((fst (actdist ! i), snd (actps ! i)), g')"
    "\<forall>j<length actps. snd (actps ! j) \<le> snd (actps ! i)"
    "\<forall>j<i. snd (actps ! j) < snd (actps ! i)"
proof -
  obtain actps g' where a: "actps_of sampler actdist g = (actps, g')"
    by (cases "actps_of sampler actdist g")
  have m: "map fst actps = map fst actdist"
    using actps_of_actions [of sampler actdist g] by (simp add: a)
  then have len: "length actps = length actdist" by (metis length_map)
  with assms have ne: "actps \<noteq> []" by auto
  from py_max_first [OF ne, of snd] obtain i where i: "i < length actps"
    "py_max snd actps = Inr (actps ! i)"
    "\<forall>j<length actps. snd (actps ! j) \<le> snd (actps ! i)"
    "\<forall>j<i. snd (actps ! j) < snd (actps ! i)"
    by blast
  have "fst (actps ! i) = fst (actdist ! i)"
    using m i(1) len by (metis nth_map)
  then have best: "actps ! i = (fst (actdist ! i), snd (actps ! i))"
    by (metis prod.collapse)
  have dec: "decide sampler actdist g = Inr ((fst (actdist ! i), snd (actps ! i)), g')"
    using i(2) best by (simp add: decide_def thompson_sample_def a split: prod.splits)
  have draws: "\<forall>k<length actdist. \<exists>gk. snd (actps ! k) = fst (tv_rv sampler (snd (actdist ! k)) gk)"
    using actps_of_draws [of _ actdist sampler g] by (simp add: a)
  have il: "i < length actdist" using i(1) len by simp
  show ?thesis by (rule that [OF a m draws il dec i(3) i(4)])
qed

lemma decide_argmax:
  assumes "actdist \<noteq> []"
  shows "\<exists>actps g' i.
           actps_of sampler actdist g = (actps, g') \<and>
           map fst actps = map fst actdist \<and>
           (\<forall>k<length actdist. \<exists>gk. snd (actps ! k) = fst (tv_rv sampler (snd (actdist ! k)) gk)) \<and>
           i < length actdist \<and>
           decide sampler actdist g = Inr ((fst (actdist ! i), snd (actps ! i)), g') \<and>
           (\<forall>j<length actps. snd (actps ! j) \<le> snd (actps ! i)) \<and>
           (\<forall>j<i. snd (actps ! j) < snd (actps ! i))"
proof -
  from assms obtain actps g' i where
    h: "actps_of sampler actdist g = (actps, g')"
    "map fst actps = map fst actdist"
    "\<forall>k<length actdist. \<exists>gk. snd (actps ! k) = fst (tv_rv sampler (snd (actdist ! k)) gk)"
    "i < length actdist"
    "decide sampler actdist g = Inr ((fst (actdist ! i), snd (actps ! i)), g')"
    "\<forall>j<length actps. snd (actps ! j) \<le> snd (actps ! i)"
    "\<forall>j<i. snd (actps ! j) < snd (actps ! i)"
    by (rule decide_pick)
  show ?thesis
    by (intro exI conjI) (rule h)+
qed

lemma decide_member:
  assumes "actdist \<noteq> []"
  shows "\<exists>action pblty g'. decide sampler actdist g = Inr ((action, pblty), g') \<and>
           action \<in> fst ` set actdist"
proof -
  from assms obtain actps g' i where
    "actps_of sampler actdist g = (actps, g')"
    "map fst actps = map fst actdist"
    "\<forall>k<length actdist. \<exists>gk. snd (actps ! k) = fst (tv_rv sampler (snd (actdist ! k)) gk)"
    and i: "i < length actdist"
    and d: "decide sampler actdist g = Inr ((fst (actdist ! i), snd (actps ! i)), g')"
    and "\<forall>j<length actps. snd (actps ! j) \<le> snd (actps ! i)"
       "\<forall>j<i. snd (actps ! j) < snd (actps ! i)"
    by (rule decide_pick)
  from i have "fst (actdist ! i) \<in> fst ` set actdist" by simp
  with d show ?thesis by blast
qed

lemma get_actions_Inr:
  assumes "\<forall>cs\<in>set css. \<exists>a. get_action cs = Inr a"
  shows "\<exists>acts. get_actions css = Inr acts \<and>
           set acts = {a. \<exists>cs\<in>set css. get_action cs = Inr a}"
  using assms
proof (induction css)
  case Nil
  then show ?case by simp
next
  case (Cons cs css)
  then obtain a where a: "get_action cs = Inr a" by auto
  from Cons obtain acts where acts: "get_actions css = Inr acts"
    "set acts = {a. \<exists>cs\<in>set css. get_action cs = Inr a}" by auto
  have "get_actions (cs # css) = Inr (a # acts)" by (simp add: a acts(1))
  moreover have "set (a # acts) = {b. \<exists>c\<in>set (cs # css). get_action c = Inr b}"
    using a acts(2) by auto
  ultimately show ?case by blast
qed

lemma py_set_iter_set: "set (py_set_iter rank xs) = set xs"
  by (simp add: py_set_iter_def)

lemma py_set_iter_distinct: "distinct (py_set_iter rank xs)"
  by (simp add: py_set_iter_def)

lemma deduce_entries:
  assumes "get_actions css = Inr acts"
  shows "\<exists>actdist. deduce rank css = Inr actdist \<and> distinct (map fst actdist) \<and>
           fst ` set actdist = set acts \<and>
           (\<forall>entry\<in>set actdist. snd entry = TruthValue 1 0)"
proof -
  let ?d = "map (\<lambda>action. (action, TruthValue 1 0)) (py_set_iter rank acts)"
  have m: "map fst ?d = py_set_iter rank acts" by (simp add: comp_def)
  have "deduce rank css = Inr ?d" by (simp add: deduce_def assms)
  moreover have "distinct (map fst ?d)" unfolding m by (rule py_set_iter_distinct)
  moreover have "fst ` set ?d = set acts"
    using m py_set_iter_set [of rank acts] by (metis set_map)
  moreover have "\<forall>entry\<in>set ?d. snd entry = TruthValue 1 0" by auto
  ultimately show ?thesis by blast
qed

lemma get_action_two_executions: "get_action two_executions = Inr (SchemaNode ''Go Left'')"
  by (simp add: two_executions_def get_action_def py_index_def atom_constructors)

lemma plan_actions:
  "get_actions (fst (plan goal expiry space))
     = Inr [SchemaNode ''Go Left'', SchemaNode ''Go Right'']"
  by (simp add: plan_def Let_def PredictiveImplicationScopeLink_def
        get_action_def py_index_def atom_constructors)

lemma deduce_plan:
  "\<exists>actdist. deduce rank (fst (plan goal expiry space)) = Inr actdist \<and> actdist \<noteq> [] \<and>
     fst ` set actdist = {SchemaNode ''Go Left'', SchemaNode ''Go Right''}"
proof -
  from deduce_entries [OF plan_actions, of rank goal expiry space]
  obtain actdist where d: "deduce rank (fst (plan goal expiry space)) = Inr actdist"
    "fst ` set actdist = set [SchemaNode ''Go Left'', SchemaNode ''Go Right'']"
    by blast
  from d(2) have "actdist \<noteq> []" by auto
  with d show ?thesis by auto
qed

lemma observation_to_atomese_ok:
  assumes "4 \<le> length obs"
  shows "\<exists>atomese_obs. observation_to_atomese sf obs = Inr atomese_obs"
proof -
  have "py_index obs 0 = Inr (obs ! 0)" "py_index obs 1 = Inr (obs ! 1)"
    "py_index obs 2 = Inr (obs ! 2)" "py_index obs 3 = Inr (obs ! 3)"
    using assms by (auto simp: py_index_def)
  then show ?thesis by (simp add: observation_to_atomese_def Let_def)
qed

lemma observation_to_atomese_short:
  assumes "length obs < 4"
  shows "observation_to_atomese sf obs = Inl IndexError"
proof -
  consider "length obs = 0" | "length obs = 1" | "length obs = 2" | "length obs = 3"
    using assms by linarith
  then show ?thesis
    by cases (simp_all add: observation_to_atomese_def py_index_def)
qed

lemma action_to_gym_plan:
  assumes "action \<in> {SchemaNode ''Go Left'', SchemaNode ''Go Right''}"
  shows "\<exists>code. action_to_gym action = Inr (Some code) \<and> code \<in> {0, 1}"
  using assms by (auto simp: action_to_gym_def SchemaNode_def)

lemma cartpole_step_run:
  assumes "4 \<le> length (observation s)"
  shows "\<exists>code observation' reward finished info env2 g1 space3.
           code \<in> {0, 1} \<and>
           env_step X (if X_ENABLED X then env_render X (env s) else env s) (Some code)
             = ((observation', reward, finished, info), env2) \<and>
           cartpole_step X s =
             Inr (if finished then TruthValue 0 1 else TruthValue 1 1,
                  s\<lparr>observation := observation',
                    cartpole_step_count := cartpole_step_count s + 1,
                    env := (if finished then env_close X env2 else env2),
                    rng := g1, atomspace := space3\<rparr>)"
proof -
  let ?i = "cartpole_step_count s"
  from observation_to_atomese_ok [OF assms] obtain atomese_obs where
    ob: "observation_to_atomese (str_float X) (observation s) = Inr atomese_obs" by blast
  obtain timestamped_obs space1 where
    ts: "timestamp_each atomese_obs ?i (Some TRUE_TV) (atomspace s) = (timestamped_obs, space1)"
    by (cases "timestamp_each atomese_obs ?i (Some TRUE_TV) (atomspace s)")
  let ?goal = "make_goal (str_float X) ?i"
  let ?env1 = "if X_ENABLED X then env_render X (env s) else env s"
  obtain css space2 where pl: "plan ?goal 1 space1 = (css, space2)"
    by (cases "plan ?goal 1 space1")
  from deduce_plan [of "set_rank X" ?goal 1 space1] obtain actdist where
    de: "deduce (set_rank X) css = Inr actdist" and ne: "actdist \<noteq> []"
    and acts: "fst ` set actdist = {SchemaNode ''Go Left'', SchemaNode ''Go Right''}"
    by (auto simp: pl)
  from decide_member [OF ne, of "rvs X" "rng s"] obtain action pblty g1 where
    dc: "decide (rvs X) actdist (rng s) = Inr ((action, pblty), g1)"
    and mem: "action \<in> fst ` set actdist" by blast
  from mem acts action_to_gym_plan [of action] obtain code where
    gy: "action_to_gym action = Inr (Some code)" and code: "code \<in> {0, 1}" by blast
  obtain result env2 where st0: "env_step X ?env1 (Some code) = (result, env2)"
    by (cases "env_step X ?env1 (Some code)")
  obtain observation' reward finished info where
    res: "result = (observation', reward, finished, info)"
    by (cases result)
  have st: "env_step X ?env1 (Some code) = ((observation', reward, finished, info), env2)"
    by (simp add: st0 res)
  obtain timestamped_reward space3 where
    tr: "timestamp (reward_to_atomese (str_float X) (PyFloat reward)) ?i (Some TRUE_TV) space2
           = (timestamped_reward, space3)"
    by (cases "timestamp (reward_to_atomese (str_float X) (PyFloat reward))
                 (cartpole_step_count s) (Some TRUE_TV) space2")
  have "cartpole_step X s =
          Inr (if finished then TruthValue 0 1 else TruthValue 1 1,
               s\<lparr>observation := observation',
                 cartpole_step_count := cartpole_step_count s + 1,
                 env := (if finished then env_close X env2 else env2),
                 rng := g1, atomspace := space3\<rparr>)"
    unfolding cartpole_step_def Let_def
    by (simp add: ob ts pl de dc gy st tr)
  with code st show ?thesis by blast
qed

lemma cartpole_step_short:
  assumes "length (observation s) < 4"
  shows "cartpole_step X s = Inl IndexError"
  unfolding cartpole_step_def Let_def
  by (simp add: observation_to_atomese_short [OF assms])

section \<open>The action translation (C1)\<close>

text \<open>
  C1 (as the code has it): Go Right is translated to 0 and Go Left to 1; any other atom is
  translated to Python's \<^verbatim>\<open>None\<close>, returned without an error.
\<close>

theorem action_to_gym_table:
  "action_to_gym (SchemaNode ''Go Right'') = Inr (Some 0) \<and>
   action_to_gym (SchemaNode ''Go Left'') = Inr (Some 1) \<and>
   (action \<noteq> SchemaNode ''Go Right'' \<and> action \<noteq> SchemaNode ''Go Left''
      \<longrightarrow> action_to_gym action = Inr None)"
  by (auto simp: action_to_gym_def SchemaNode_def)

theorem action_to_gym_table_witness:
  "SchemaNode ''Go Up'' \<noteq> SchemaNode ''Go Right'' \<and>
   SchemaNode ''Go Up'' \<noteq> SchemaNode ''Go Left'' \<and>
   action_to_gym (SchemaNode ''Go Up'') = Inr None"
  using action_to_gym_table [of "SchemaNode ''Go Up''"]
  by (simp add: SchemaNode_def)

text \<open>
  C1 (as the spec states it) fails: an action outside the table is not an error, the
  translation returns \<^verbatim>\<open>None\<close> for it.
\<close>

theorem action_to_gym_unknown_counterexample:
  "\<not> isl (action_to_gym (SchemaNode ''Go Up'')) \<and>
   action_to_gym (SchemaNode ''Go Up'') = Inr None"
  by (simp add: action_to_gym_def SchemaNode_def)

section \<open>Reading the action of a schematic (C2)\<close>

text \<open>
  C2 (as the code has it): for a schematic with a conjunction at its third place,
  \<^verbatim>\<open>get_action\<close> raises StopIteration when the conjunction has no execution clause,
  and otherwise returns the first outgoing atom of the first execution clause: the action
  of the only clause when there is one, and the action of the first when there are more.
\<close>

theorem get_action_first_execution:
  assumes "py_index (out cs) 2 = Inr body"
  shows "(filter (\<lambda>x. atom_type_of x = types_ExecutionLink) (out body) = []
            \<longrightarrow> get_action cs = Inl StopIteration) \<and>
         (filter (\<lambda>x. atom_type_of x = types_ExecutionLink) (out body) = [ExecutionLink (a # args)]
            \<longrightarrow> get_action cs = Inr a) \<and>
         (filter (\<lambda>x. atom_type_of x = types_ExecutionLink) (out body) = ExecutionLink (a # args) # others
            \<longrightarrow> get_action cs = Inr a)"
  using assms
  by (auto simp: get_action_def py_index_def ExecutionLink_def
           dest: find_filter_Nil find_filter_Cons)

theorem get_action_first_execution_witness:
  "py_index (out two_executions) 2
     = Inr (AndLink [ExecutionLink [SchemaNode ''Go Left''], ExecutionLink [SchemaNode ''Go Right'']]) \<and>
   get_action two_executions = Inr (SchemaNode ''Go Left'')"
  using get_action_first_execution [of two_executions
      "AndLink [ExecutionLink [SchemaNode ''Go Left''], ExecutionLink [SchemaNode ''Go Right'']]"
      "SchemaNode ''Go Left''" "[]" "[ExecutionLink [SchemaNode ''Go Right'']]"]
  by (simp add: two_executions_def py_index_def atom_constructors)

text \<open>
  C2 (as the spec states it) fails for more than one execution clause: with two of them
  \<^verbatim>\<open>get_action\<close> returns the action of the first and raises nothing.
\<close>

theorem get_action_two_executions_counterexample:
  "length (filter (\<lambda>x. atom_type_of x = types_ExecutionLink) (out (out two_executions ! 2))) = 2 \<and>
   get_action two_executions = Inr (SchemaNode ''Go Left'')"
  by (simp add: two_executions_def get_action_def py_index_def atom_constructors)

section \<open>Deduction on no schematic (C6)\<close>

text \<open>
  C6 (as the code has it): given no schematic, \<^verbatim>\<open>deduce\<close> returns the empty
  action distribution, whatever the iteration order of sets.
\<close>

theorem deduce_empty: "deduce rank [] = Inr []"
  by (simp add: deduce_def py_set_iter_def)

text \<open>
  C6 (as the spec states it) fails: on the empty list \<^verbatim>\<open>deduce\<close> does not raise,
  it returns the empty list.
\<close>

theorem deduce_empty_counterexample: "\<not> isl (deduce size []) \<and> deduce size [] = Inr []"
  by (simp add: deduce_def py_set_iter_def)

section \<open>The beta parameters of a truth value (C7, C8)\<close>




text \<open>
  C8 (as the code has it): for a fixed count that is not negative and strengths
  s1 \<le> s2 in [0, 1], all floats, and positive priors, the greater strength gives an a
  that is not smaller and a b that is not greater.
\<close>

theorem tv_to_beta_mono:
  assumes "mean tv1 = Finite s1" and "mean tv2 = Finite s2"
    and "count tv1 = Finite c" and "count tv2 = Finite c"
    and "representable s1" and "representable s2" and "representable c"
    and "0 \<le> s1" and "s1 \<le> s2" and "s2 \<le> 1" and "0 \<le> c"
    and "0 < prior_a" and "0 < prior_b"
  shows "float_le (fst (tv_to_beta tv1 (Some (Finite prior_a)) (Some (Finite prior_b))))
                  (fst (tv_to_beta tv2 (Some (Finite prior_a)) (Some (Finite prior_b)))) \<and>
         float_le (snd (tv_to_beta tv2 (Some (Finite prior_a)) (Some (Finite prior_b))))
                  (snd (tv_to_beta tv1 (Some (Finite prior_a)) (Some (Finite prior_b)))) \<and>
         float_le (fst (tv_to_beta tv1 None None)) (fst (tv_to_beta tv2 None None)) \<and>
         float_le (snd (tv_to_beta tv2 None None)) (snd (tv_to_beta tv1 None None))"
proof -
  have s1: "s1 \<le> 1" and s2: "0 \<le> s2" using assms(8-10) by linarith+
  from tv_to_beta_finite [OF assms(1) assms(3) assms(5) assms(7) assms(8) s1 assms(11)]
  obtain p1 where p1: "round_double (c * s1) = Finite p1" "0 \<le> p1" "p1 \<le> c"
    and v1: "\<And>pa pb. tv_to_beta tv1 (Some (Finite pa)) (Some (Finite pb))
               = (round_double (pa + p1), float_sub (round_double (pb + c)) (Finite p1))"
    by blast
  from tv_to_beta_finite [OF assms(2) assms(4) assms(6) assms(7) s2 assms(10) assms(11)]
  obtain p2 where p2: "round_double (c * s2) = Finite p2" "0 \<le> p2" "p2 \<le> c"
    and v2: "\<And>pa pb. tv_to_beta tv2 (Some (Finite pa)) (Some (Finite pb))
               = (round_double (pa + p2), float_sub (round_double (pb + c)) (Finite p2))"
    by blast
  have "0 \<le> c * s1" "c * s1 \<le> c * s2"
    using assms(8,9,11) by (simp_all add: mult_left_mono)
  from round_double_mono [OF this] have p12: "p1 \<le> p2" by (simp add: p1(1) p2(1))
  have a: "float_le (round_double (pa + p1)) (round_double (pa + p2))" if "0 < pa" for pa
  proof -
    have "0 \<le> pa + p1" "pa + p1 \<le> pa + p2" using that p1(2) p12 by simp_all
    then show ?thesis by (rule round_double_mono)
  qed
  have b: "float_le (float_sub (round_double (pb + c)) (Finite p2))
                    (float_sub (round_double (pb + c)) (Finite p1))" if "0 < pb" for pb
  proof -
    have "c \<le> pb + c" using that by simp
    from round_double_above [OF assms(11) this assms(7)] p2(3)
    have "round_double (pb + c) = PosInf \<or> (\<exists>t. round_double (pb + c) = Finite t \<and> p2 \<le> t)"
      by auto
    then show ?thesis using p12 by (rule float_sub_antimono)
  qed
  show ?thesis
    using a [OF assms(12)] b [OF assms(13)] a [of 1] b [of 1]
    by (simp add: tv_to_beta_default v1 v2)
qed

theorem tv_to_beta_mono_witness:
  "representable (1 / 4) \<and> representable (1 / 2) \<and> representable 4 \<and>
   tv_to_beta \<lparr>mean = Finite (1 / 4), count = Finite 4\<rparr> None None = (Finite 2, Finite 4) \<and>
   tv_to_beta \<lparr>mean = Finite (1 / 2), count = Finite 4\<rparr> None None = (Finite 3, Finite 3) \<and>
   float_le (Finite 2) (Finite 3) \<and> float_le (Finite 3) (Finite 4)"
proof -
  have r: "representable (1 / 4)" "representable (1 / 2)" "representable 4"
    unfolding representable_def
    by (subst round_double_eval [of "- 2"], simp_all add: pow2_def rne_def Let_def)
       (subst round_double_eval [of "- 1"], simp_all add: pow2_def rne_def Let_def,
        subst round_double_eval [of 2], simp_all add: pow2_def rne_def Let_def)
  have e: "round_double 1 = Finite 1" "round_double 2 = Finite 2" "round_double 3 = Finite 3"
    "round_double 5 = Finite 5"
    by (subst round_double_eval [of 0], simp_all add: pow2_def rne_def Let_def)
       (subst round_double_eval [of 1], simp_all add: pow2_def rne_def Let_def,
        subst round_double_eval [of 1], simp_all add: pow2_def rne_def Let_def,
        subst round_double_eval [of 2], simp_all add: pow2_def rne_def Let_def)
  from tv_to_beta_mono
    [of "\<lparr>mean = Finite (1 / 4), count = Finite 4\<rparr>" "1 / 4"
        "\<lparr>mean = Finite (1 / 2), count = Finite 4\<rparr>" "1 / 2" 4 1 1, OF _ _ _ _ r]
  show ?thesis using r e by (auto simp: representable_def tv_to_beta_def)
qed

text \<open>
  C8 (as the spec states it) fails: at count 0 the strength does not enter a and b, and
  at the positive count \<open>2\<^sup>-\<^sup>6\<^sup>0\<close> the strengths 1/4 and 1/2 give the same a and
  the same b, since the terms that differ are lost in the rounding.
\<close>

theorem tv_to_beta_not_strict_counterexample:
  "tv_to_beta (TruthValue (1 / 4) 0) None None = (Finite 1, Finite 1) \<and>
   tv_to_beta (TruthValue (1 / 2) 0) None None = (Finite 1, Finite 1) \<and>
   tv_to_beta (TruthValue (1 / 4) (1 / 2 ^ 60)) None None = (Finite 1, Finite 1) \<and>
   tv_to_beta (TruthValue (1 / 2) (1 / 2 ^ 60)) None None = (Finite 1, Finite 1) \<and>
   \<not> float_less (Finite 1) (Finite 1)"
proof -
  have r0: "round_double 0 = Finite 0" by (simp add: round_double_def)
  have r1: "round_double 1 = Finite 1"
    by (subst round_double_eval [of 0]) (simp_all add: pow2_def rne_def Let_def)
  have s: "round_double (1 / 4) = Finite (1 / 4)" "round_double (1 / 2) = Finite (1 / 2)"
    by (subst round_double_eval [of "- 2"], simp_all add: pow2_def rne_def Let_def)
       (subst round_double_eval [of "- 1"], simp_all add: pow2_def rne_def Let_def)
  have c: "round_double (1 / 2 ^ 60) = Finite (1 / 2 ^ 60)"
    by (subst round_double_eval [of "- 60"]) (simp_all add: pow2_def rne_def Let_def)
  have p: "round_double (1 / 2 ^ 62) = Finite (1 / 2 ^ 62)"
    "round_double (1 / 2 ^ 61) = Finite (1 / 2 ^ 61)"
    by (subst round_double_eval [of "- 62"], simp_all add: pow2_def rne_def Let_def)
       (subst round_double_eval [of "- 61"], simp_all add: pow2_def rne_def Let_def)
  have up: "round_double (1 + 1 / 2 ^ 62) = Finite 1" "round_double (1 + 1 / 2 ^ 61) = Finite 1"
    "round_double (1 + 1 / 2 ^ 60) = Finite 1"
    by (subst round_double_eval [of 0], simp_all add: pow2_def rne_def Let_def)+
  have dn: "round_double (1 - 1 / 2 ^ 62) = Finite 1" "round_double (1 - 1 / 2 ^ 61) = Finite 1"
    by (subst round_double_eval [of "- 1"], simp_all add: pow2_def rne_def Let_def)+
  have m: "(1 / 2 ^ 60) * (1 / 4) = (1 / 2 ^ 62 :: real)"
    "(1 / 2 ^ 60) * (1 / 2) = (1 / 2 ^ 61 :: real)" by simp_all
  show ?thesis
    by (simp only: TruthValue_def tv_to_beta_def Let_def option.case truth_value.select_convs
          float_add.simps float_mul.simps float_sub.simps float_less.simps
          s c r0 r1 m p up dn mult_zero_left add_0_right diff_zero simp_thms)
qed

section \<open>The decision (C3)\<close>

text \<open>
  C3: on an action distribution that is not empty, \<^verbatim>\<open>decide\<close> draws one variate
  for each pair, in order, each from the beta distribution of the pair's truth value; it
  returns the action at the first position whose variate is greatest (no variate is
  greater, and every earlier one is strictly smaller), together with that variate.
\<close>

theorem decide_first_argmax:
  assumes "actdist \<noteq> []"
  shows "\<exists>actps g' i.
           actps_of sampler actdist g = (actps, g') \<and>
           map fst actps = map fst actdist \<and>
           (\<forall>k<length actdist. \<exists>gk. snd (actps ! k) = fst (tv_rv sampler (snd (actdist ! k)) gk)) \<and>
           i < length actdist \<and>
           decide sampler actdist g = Inr ((fst (actdist ! i), snd (actps ! i)), g') \<and>
           (\<forall>j<length actps. snd (actps ! j) \<le> snd (actps ! i)) \<and>
           (\<forall>j<i. snd (actps ! j) < snd (actps ! i))"
  using assms by (rule decide_argmax)

theorem decide_first_argmax_witness:
  "[(SchemaNode ''Go Left'', TruthValue 1 0), (SchemaNode ''Go Right'', TruthValue 1 0)] \<noteq> [] \<and>
   decide tape_rvs
     [(SchemaNode ''Go Left'', TruthValue 1 0), (SchemaNode ''Go Right'', TruthValue 1 0)]
     [1 / 2, 1 / 2, 3 / 4]
     = Inr ((SchemaNode ''Go Left'', 1 / 2), [3 / 4])"
  using decide_first_argmax
    [of "[(SchemaNode ''Go Left'', TruthValue 1 0), (SchemaNode ''Go Right'', TruthValue 1 0)]"
        tape_rvs "[1 / 2, 1 / 2, 3 / 4]"]
  by (simp add: decide_def thompson_sample_def tv_rv_def tape_rvs_def)

section \<open>The planner (C4)\<close>

text \<open>
  C4: whatever the goal, \<^verbatim>\<open>plan\<close> returns two distinct schematics and never the
  empty list. The conjunction of one has the context "the pole angle is greater than 0"
  and the execution of Go Right; the conjunction of the other has the context "0 is
  greater than the pole angle" and the execution of Go Left. Both have the numeral of the
  expiry as their time offset, and the truth value (0.9, 0.1) is set on both.
\<close>

theorem plan_two_schematics:
  "\<exists>cs_l cs_r space'.
     plan goal expiry space = ([cs_l, cs_r], space') \<and>
     plan goal' expiry space = plan goal expiry space \<and>
     fst (plan goal expiry space) \<noteq> [] \<and>
     cs_l \<noteq> cs_r \<and>
     out (out cs_r ! 2) =
       [EvaluationLink [PredicateNode ''Pole Angle'', VariableNode ''$angle''],
        GreaterThanLink [VariableNode ''$angle'', NumberNode ''0''],
        ExecutionLink [SchemaNode ''Go Right'']] \<and>
     get_action cs_r = Inr (SchemaNode ''Go Right'') \<and>
     out (out cs_l ! 2) =
       [EvaluationLink [PredicateNode ''Pole Angle'', VariableNode ''$angle''],
        GreaterThanLink [NumberNode ''0'', VariableNode ''$angle''],
        ExecutionLink [SchemaNode ''Go Left'']] \<and>
     get_action cs_l = Inr (SchemaNode ''Go Left'') \<and>
     py_index (out cs_r) 1 = Inr (NumberNode (str_int expiry)) \<and>
     py_index (out cs_l) 1 = Inr (NumberNode (str_int expiry)) \<and>
     space' cs_r = Some (TruthValue 0.9 0.1) \<and>
     space' cs_l = Some (TruthValue 0.9 0.1)"
  by (simp add: plan_def Let_def PredictiveImplicationScopeLink_def set_tv_def
        get_action_def py_index_def atom_constructors)

theorem plan_two_schematics_witness:
  "map (\<lambda>cs. py_index (out cs) 1) (fst (plan (NumberNode ''7'') 12 Map.empty))
     = [Inr (NumberNode ''12''), Inr (NumberNode ''12'')] \<and>
   map get_action (fst (plan (NumberNode ''7'') 12 Map.empty))
     = [Inr (SchemaNode ''Go Left''), Inr (SchemaNode ''Go Right'')]"
  using plan_two_schematics [of "NumberNode ''7''" 12 Map.empty "NumberNode ''8''"]
  by (auto simp: str_int_def str_nat.simps)

section \<open>Deduction (C5)\<close>

text \<open>
  C5: on a list of schematics that is not empty and whose actions can all be read,
  \<^verbatim>\<open>deduce\<close> returns a distribution that is not empty, with no action twice, whose
  actions are exactly the actions of the schematics, each with the truth value (1, 0).
\<close>

theorem deduce_one_entry_per_action:
  assumes "css \<noteq> []" and "\<forall>cs\<in>set css. \<exists>a. get_action cs = Inr a"
  shows "\<exists>actdist. deduce rank css = Inr actdist \<and> actdist \<noteq> [] \<and>
           distinct (map fst actdist) \<and>
           fst ` set actdist = {a. \<exists>cs\<in>set css. get_action cs = Inr a} \<and>
           (\<forall>entry\<in>set actdist. snd entry = TruthValue 1 0)"
proof -
  from get_actions_Inr [OF assms(2)] obtain acts where acts: "get_actions css = Inr acts"
    "set acts = {a. \<exists>cs\<in>set css. get_action cs = Inr a}" by blast
  from deduce_entries [OF acts(1), of rank] obtain actdist where d:
    "deduce rank css = Inr actdist" "distinct (map fst actdist)"
    "fst ` set actdist = set acts" "\<forall>entry\<in>set actdist. snd entry = TruthValue 1 0"
    by blast
  from assms obtain cs a where "cs \<in> set css" "get_action cs = Inr a"
    by (cases css) auto
  then have "a \<in> set acts" unfolding acts(2) by auto
  then have "fst ` set actdist \<noteq> {}" unfolding d(3) by auto
  then have "actdist \<noteq> []" by auto
  then show ?thesis using d acts(2) by auto
qed

theorem deduce_one_entry_per_action_witness:
  "[two_executions, two_executions] \<noteq> [] \<and>
   get_action two_executions = Inr (SchemaNode ''Go Left'') \<and>
   deduce size [two_executions, two_executions]
     = Inr [(SchemaNode ''Go Left'', TruthValue 1 0)]"
  using deduce_one_entry_per_action [of "[two_executions, two_executions]" size]
  by (simp add: deduce_def py_set_iter_def get_action_two_executions)

section \<open>The tick of the controller (C9, C10)\<close>

text \<open>
  C9: a tick on an observation with its four channels steps the environment with the
  code 0 or 1. When the step reports the end of the episode, the tick closes the
  environment and returns the truth value (0, 1); otherwise it leaves the environment as
  the step left it and returns (1, 1).
\<close>

theorem cartpole_step_signal:
  assumes "4 \<le> length (observation s)"
  shows "\<exists>code observation' reward finished info env2 s'.
           code \<in> {0, 1} \<and>
           env_step X (if X_ENABLED X then env_render X (env s) else env s) (Some code)
             = ((observation', reward, finished, info), env2) \<and>
           cartpole_step X s = Inr (if finished then TruthValue 0 1 else TruthValue 1 1, s') \<and>
           env s' = (if finished then env_close X env2 else env2) \<and>
           observation s' = observation'"
proof -
  from cartpole_step_run [OF assms, of X]
  obtain code observation' reward finished info env2 g1 space3 where
    c: "code \<in> {0, 1}"
    and st: "env_step X (if X_ENABLED X then env_render X (env s) else env s) (Some code)
               = ((observation', reward, finished, info), env2)"
    and r: "cartpole_step X s =
              Inr (if finished then TruthValue 0 1 else TruthValue 1 1,
                   s\<lparr>observation := observation',
                     cartpole_step_count := cartpole_step_count s + 1,
                     env := (if finished then env_close X env2 else env2),
                     rng := g1, atomspace := space3\<rparr>)"
    by blast
  show ?thesis
    by (intro exI conjI, rule c, rule st, rule r) simp_all
qed

theorem cartpole_step_signal_witness:
  "4 \<le> length (observation (demo_state 2)) \<and>
   (\<exists>s'. cartpole_step demo_externals (demo_state 2) = Inr (TruthValue 0 1, s') \<and> env s' = 0) \<and>
   (\<exists>s'. cartpole_step demo_externals (demo_state 0) = Inr (TruthValue 1 1, s') \<and> env s' = 1)"
  using cartpole_step_signal [of "demo_state 2" demo_externals]
    cartpole_step_signal [of "demo_state 0" demo_externals]
  by (auto simp: demo_state_def demo_externals_def)

text \<open>
  C10: a tick on an observation with its four channels returns, and every tick that
  returns, with the terminal signal (0, 1) or with the signal (1, 1), has advanced
  \<^verbatim>\<open>cartpole_step_count\<close> by exactly 1.
\<close>

theorem cartpole_step_count_advances:
  "(4 \<le> length (observation s) \<longrightarrow> (\<exists>tv s'. cartpole_step X s = Inr (tv, s'))) \<and>
   (\<forall>tv s'. cartpole_step X s = Inr (tv, s')
      \<longrightarrow> (tv = TruthValue 0 1 \<or> tv = TruthValue 1 1) \<and>
          cartpole_step_count s' = cartpole_step_count s + 1)"
proof (intro conjI impI allI)
  assume "4 \<le> length (observation s)"
  from cartpole_step_run [OF this, of X] show "\<exists>tv s'. cartpole_step X s = Inr (tv, s')"
    by blast
next
  fix tv s'
  assume r: "cartpole_step X s = Inr (tv, s')"
  have "4 \<le> length (observation s)"
  proof (rule ccontr)
    assume "\<not> 4 \<le> length (observation s)"
    then have "length (observation s) < 4" by simp
    from cartpole_step_short [OF this, of X] r show False by simp
  qed
  from cartpole_step_run [OF this, of X]
  obtain observation' finished env2 g1 space3 where
    "cartpole_step X s =
       Inr (if finished then TruthValue 0 1 else TruthValue 1 1,
            s\<lparr>observation := observation',
              cartpole_step_count := cartpole_step_count s + 1,
              env := (if finished then env_close X env2 else env2),
              rng := g1, atomspace := space3\<rparr>)"
    by blast
  with r have tv: "tv = (if finished then TruthValue 0 1 else TruthValue 1 1)"
    and s': "s' = s\<lparr>observation := observation',
              cartpole_step_count := cartpole_step_count s + 1,
              env := (if finished then env_close X env2 else env2),
              rng := g1, atomspace := space3\<rparr>"
    by simp_all
  show "tv = TruthValue 0 1 \<or> tv = TruthValue 1 1" unfolding tv by simp
  show "cartpole_step_count s' = cartpole_step_count s + 1" unfolding s' by simp
qed

theorem cartpole_step_count_advances_witness:
  "4 \<le> length (observation (demo_state 2)) \<and>
   (\<exists>tv s'. cartpole_step demo_externals (demo_state 2) = Inr (tv, s') \<and>
      cartpole_step_count s' = 1)"
  using cartpole_step_count_advances [of "demo_state 2" demo_externals]
  by (auto simp: demo_state_def)

end
